theory Spec2Isabelle
  imports Main "HOL-Library.Sublist"
begin

section \<open>The QR login of src/web/login-qr.ts\<close>

text \<open>
  The module keeps one module-level variable, \<open>activeLogin\<close>, which is either null or a
  reference to an \<open>ActiveLogin\<close> object, and two exported async functions,
  \<open>startWebLoginWithQr\<close> and \<open>waitForWebLogin\<close>. The host is a single-threaded event
  loop: a function runs without interruption up to its next \<open>await\<close>, and anything else
  (another call, a callback of the transport, a timer) can run while it is suspended.

  The embedding follows that execution model. The state of the program is a record
  \<open>world\<close>; \<open>ActiveLogin\<close> objects live in a store indexed by references, because
  closures and suspended calls keep references to objects that may have left the
  \<open>activeLogin\<close> slot. Every source function is cut at its awaits into segments; a
  segment is a function from the world to the new world and the task's next state
  (suspended at an await, returned, or thrown). The function \<open>step\<close> runs one
  segment in answer to one event of the event loop.
\<close>

subsection \<open>Data\<close>

type_synonym sock = nat
type_synonym login_ref = nat
type_synonym task_id = nat

text \<open>\<open>login.waitPromise\<close>: either the \<open>Promise.resolve()\<close> of the object literal, or
  the n-th chain \<open>waitForWaConnection(sock).then(..).catch(..)\<close> built by
  \<open>attachLoginWaiter\<close>.\<close>

datatype promise = Promise_resolve | Chained nat

text \<open>\<open>type ActiveLogin\<close>. The source's \<open>id\<close> is a string from \<open>randomUUID()\<close>;
  the supply of fresh identifiers is a counter here. An optional field is an option,
  \<open>None\<close> for \<open>undefined\<close>.\<close>

record ActiveLogin =
  id_login :: nat
  sock :: sock
  startedAt :: int
  qr :: "string option"
  qrDataUrl :: "string option"
  connected :: bool
  error :: "string option"
  errorStatus :: "int option"
  waitPromise :: promise
  restartAttempted :: bool
  verbose :: bool

text \<open>A caught JavaScript error value, as far as the module looks at it: through
  \<open>String(err)\<close>, and through the helpers \<open>formatError(err)\<close> and
  \<open>getStatusCode(err)\<close> of session.js, which are not part of the sources at hand and
  are therefore arbitrary here.\<close>

datatype js_error = JsError (String_of: string) (formatError: string) (getStatusCode: "int option")

text \<open>How an awaited call of a collaborator ends.\<close>

datatype 'a settle = Fulfilled 'a | Failed js_error

text \<open>\<open>qrPromise\<close> of one call of \<open>startWebLoginWithQr\<close>; it is rejected only by
  the timer, with \<open>new Error(msg)\<close>.\<close>

datatype qr_state = QrPending | QrResolved string | QrRejected string

record start_opts =
  opt_verbose :: "bool option"
  opt_timeoutMs :: "int option"
  opt_force :: "bool option"

record start_result =
  sr_qrDataUrl :: "string option"
  sr_message :: string

record wait_result =
  wr_connected :: bool
  wr_message :: string

text \<open>Where a call stands: suspended at one of its awaits, or finished.\<close>

datatype task =
    StartAwaitAuth start_opts
  | StartAwaitSock start_opts
  | StartAwaitQr login_ref
  | StartAwaitRender login_ref string
  | StartReturned start_result
  | WaitRace login_ref int promise
  | WaitLogout login_ref
  | WaitRestart login_ref int
  | WaitReturned wait_result
  | Threw js_error

datatype severity = Info | Success | Danger

datatype log_entry = RuntimeLog severity string | LogInfo string

record world =
  activeLogin :: "login_ref option"
  heap :: "login_ref \<Rightarrow> ActiveLogin"
  next_login :: nat
  next_sock :: nat
  closes :: "sock list"
  waiters :: "nat \<rightharpoonup> (sock \<times> login_ref)"
  next_promise :: nat
  qrPromise :: "task_id \<rightharpoonup> qr_state"
  qrTimer :: "task_id \<rightharpoonup> int"
  tasks :: "task_id \<rightharpoonup> task"
  next_task :: nat
  now :: int
  webAuth :: bool
  selfId :: "string option \<times> string option"
  logs :: "log_entry list"

text \<open>
  \<^item> \<open>closes\<close>: the sockets on which \<open>sock.ws?.close()\<close> was called, in order.
  \<^item> \<open>waiters\<close>: the pending chains of \<open>attachLoginWaiter\<close>, each with the socket it
    listens to and the \<open>login\<close> its closures captured. A chain missing here is settled.
  \<^item> \<open>qrPromise\<close>, \<open>qrTimer\<close>: the promise and the timer (its due time; \<open>None\<close> once
    cleared or fired) that a call of \<open>startWebLoginWithQr\<close> creates. They are in the
    world, by the call's task id, because the \<open>onQr\<close> callback of the transport
    reaches them whenever the transport emits a code.
  \<^item> \<open>webAuth\<close>: what \<open>webAuthExists()\<close> finds; \<open>selfId\<close>: the \<open>e164\<close> and
    \<open>jid\<close> that \<open>readWebSelfId()\<close> returns.
\<close>

subsection \<open>JavaScript idioms\<close>

text \<open>\<open>if (s)\<close> on an optional string: \<open>undefined\<close> and the empty string are falsy.\<close>

definition truthy :: "string option \<Rightarrow> bool" where
  "truthy v = (case v of None \<Rightarrow> False | Some s \<Rightarrow> s \<noteq> [])"

text \<open>\<open>Boolean(b)\<close> and \<open>!b\<close> on an optional boolean.\<close>

definition Boolean :: "bool option \<Rightarrow> bool" where
  "Boolean b = (case b of None \<Rightarrow> False | Some v \<Rightarrow> v)"

text \<open>A template literal prints \<open>undefined\<close> for a missing string.\<close>

definition template :: "string option \<Rightarrow> string" where
  "template v = (case v of None \<Rightarrow> ''undefined'' | Some s \<Rightarrow> s)"

text \<open>\<open>String(new Error(msg))\<close>.\<close>

definition String_Error :: "string \<Rightarrow> string" where
  "String_Error msg = ''Error: '' @ msg"

subsection \<open>Messages\<close>

text \<open>Strings are byte lists; the characters of the source outside ASCII are written as
  their UTF-8 bytes.\<close>

definition ARROW :: string where
  "ARROW = [CHR 0xE2, CHR 0x86, CHR 0x92]"

definition MSG_already_linked :: "string \<Rightarrow> string" where
  "MSG_already_linked who =
     ''WhatsApp is already linked ('' @ who @ ''). Say '' @ [CHR 0xE2, CHR 0x80, CHR 0x9C]
       @ ''relink'' @ [CHR 0xE2, CHR 0x80, CHR 0x9D] @ '' if you want a fresh QR.''"

definition MSG_qr_active :: string where
  "MSG_qr_active = ''QR already active. Scan it in WhatsApp '' @ ARROW @ '' Linked Devices.''"

definition MSG_qr_timed_out :: string where
  "MSG_qr_timed_out = ''Timed out waiting for WhatsApp QR''"

definition MSG_failed_start :: "string \<Rightarrow> string" where
  "MSG_failed_start e = ''Failed to start WhatsApp login: '' @ e"

definition MSG_failed_qr :: "string \<Rightarrow> string" where
  "MSG_failed_qr e = ''Failed to get QR: '' @ e"

definition MSG_scan :: string where
  "MSG_scan = ''Scan this QR in WhatsApp '' @ ARROW @ '' Linked Devices.''"

definition MSG_no_login :: string where
  "MSG_no_login = ''No active WhatsApp login in progress.''"

definition MSG_expired :: string where
  "MSG_expired = ''The login QR expired. Ask me to generate a new one.''"

definition MSG_still_waiting :: string where
  "MSG_still_waiting =
     ''Still waiting for the QR scan. Let me know when you'' @ [CHR 0xE2, CHR 0x80, CHR 0x99]
       @ ''ve scanned it.''"

definition MSG_logged_out :: string where
  "MSG_logged_out =
     ''WhatsApp reported the session is logged out. Cleared cached web session; please scan a new QR.''"

definition MSG_login_failed :: "string option \<Rightarrow> string" where
  "MSG_login_failed e = ''WhatsApp login failed: '' @ template e"

definition MSG_linked :: string where
  "MSG_linked = [CHR 0xE2, CHR 0x9C, CHR 0x85] @ '' Linked! WhatsApp is ready.''"

definition MSG_ended :: string where
  "MSG_ended = ''Login ended without a connection.''"

definition MSG_restart :: string where
  "MSG_restart =
     ''WhatsApp asked for a restart after pairing (code 515); retrying connection once''
       @ [CHR 0xE2, CHR 0x80, CHR 0xA6]"

definition MSG_qr_received :: string where
  "MSG_qr_received = ''WhatsApp QR received.''"

subsection \<open>The store: closeSocket, resetActiveLogin, isLoginFresh\<close>

definition ACTIVE_LOGIN_TTL_MS :: int where
  "ACTIVE_LOGIN_TTL_MS = 3 * 60000"

definition runtime_log :: "severity \<Rightarrow> string \<Rightarrow> world \<Rightarrow> world" where
  "runtime_log sev msg st = st\<lparr>logs := logs st @ [RuntimeLog sev msg]\<rparr>"

definition logInfo :: "string \<Rightarrow> world \<Rightarrow> world" where
  "logInfo msg st = st\<lparr>logs := logs st @ [LogInfo msg]\<rparr>"

text \<open>An assignment to fields of the object behind a reference.\<close>

definition assign :: "login_ref \<Rightarrow> (ActiveLogin \<Rightarrow> ActiveLogin) \<Rightarrow> world \<Rightarrow> world" where
  "assign r f st = st\<lparr>heap := (heap st)(r := f (heap st r))\<rparr>"

definition closeSocket :: "sock \<Rightarrow> world \<Rightarrow> world" where
  "closeSocket s st = st\<lparr>closes := closes st @ [s]\<rparr>"

definition resetActiveLogin :: "string option \<Rightarrow> world \<Rightarrow> world" where
  "resetActiveLogin reason st =
     (let st1 = (case activeLogin st of
                   Some a \<Rightarrow> (closeSocket (sock (heap st a)) st)\<lparr>activeLogin := None\<rparr>
                 | None \<Rightarrow> st)
      in case reason of
           None \<Rightarrow> st1
         | Some r \<Rightarrow> if r \<noteq> [] then logInfo r st1 else st1)"

definition isLoginFresh :: "login_ref \<Rightarrow> world \<Rightarrow> bool" where
  "isLoginFresh login st \<longleftrightarrow> now st - startedAt (heap st login) < ACTIVE_LOGIN_TTL_MS"

subsection \<open>attachLoginWaiter and its two callbacks\<close>

text \<open>The \<open>then\<close> callback: \<open>if (activeLogin?.id === login.id) activeLogin.connected = true\<close>.\<close>

definition waiter_then :: "login_ref \<Rightarrow> world \<Rightarrow> world" where
  "waiter_then login st =
     (case activeLogin st of
        None \<Rightarrow> st
      | Some a \<Rightarrow>
          if id_login (heap st a) = id_login (heap st login)
          then assign a (\<lambda>l. l\<lparr>connected := True\<rparr>) st
          else st)"

text \<open>The \<open>catch\<close> callback, with the caught error.\<close>

definition waiter_catch :: "login_ref \<Rightarrow> js_error \<Rightarrow> world \<Rightarrow> world" where
  "waiter_catch login err st =
     (case activeLogin st of
        None \<Rightarrow> st
      | Some a \<Rightarrow>
          if id_login (heap st a) = id_login (heap st login)
          then assign a (\<lambda>l. l\<lparr>error := Some (formatError err),
                                 errorStatus := getStatusCode err\<rparr>) st
          else st)"

definition attachLoginWaiter :: "login_ref \<Rightarrow> world \<Rightarrow> world" where
  "attachLoginWaiter login st =
     (let p = next_promise st;
          st1 = st\<lparr>waiters := (waiters st)(p \<mapsto> (sock (heap st login), login)),
                   next_promise := p + 1\<rparr>
      in assign login (\<lambda>l. l\<lparr>waitPromise := Chained p\<rparr>) st1)"

text \<open>\<open>waitForWaConnection(sock)\<close> settles: the chain runs the callback for the outcome
  and is settled from then on.\<close>

definition conn_settle :: "nat \<Rightarrow> unit settle \<Rightarrow> world \<Rightarrow> world" where
  "conn_settle p outcome st =
     (case waiters st p of
        None \<Rightarrow> st
      | Some (s, login) \<Rightarrow>
          (let st1 = st\<lparr>waiters := (waiters st)(p := None)\<rparr>
           in case outcome of
                Fulfilled _ \<Rightarrow> waiter_then login st1
              | Failed err \<Rightarrow> waiter_catch login err st1))"

definition settled :: "world \<Rightarrow> promise \<Rightarrow> bool" where
  "settled st p = (case p of Promise_resolve \<Rightarrow> True | Chained n \<Rightarrow> waiters st n = None)"

subsection \<open>restartLoginSocket\<close>

text \<open>\<open>createWaSocket\<close> fulfilled: the transport hands out a socket that did not exist
  before.\<close>

definition new_socket :: "world \<Rightarrow> sock \<times> world" where
  "new_socket st = (next_sock st, st\<lparr>next_sock := next_sock st + 1\<rparr>)"

text \<open>The function up to its \<open>await createWaSocket(...)\<close>: \<open>Some False\<close> when it
  returned false at once, \<open>None\<close> when it is suspended at the await.\<close>

definition restartLoginSocket_begin :: "login_ref \<Rightarrow> world \<Rightarrow> bool option \<times> world" where
  "restartLoginSocket_begin login st =
     (if restartAttempted (heap st login) then (Some False, st)
      else
        (let st1 = assign login (\<lambda>l. l\<lparr>restartAttempted := True\<rparr>) st;
             st2 = runtime_log Info MSG_restart st1;
             st3 = closeSocket (sock (heap st2 login)) st2
         in (None, st3)))"

text \<open>The rest of the function, from the outcome of \<open>createWaSocket\<close>.\<close>

definition restartLoginSocket_resume :: "login_ref \<Rightarrow> unit settle \<Rightarrow> world \<Rightarrow> bool \<times> world" where
  "restartLoginSocket_resume login r st =
     (case r of
        Fulfilled _ \<Rightarrow>
          (case new_socket st of
             (s, st1) \<Rightarrow>
               (let st2 = assign login (\<lambda>l. l\<lparr>sock := s, connected := False, error := None,
                                               errorStatus := None\<rparr>) st1;
                    st3 = attachLoginWaiter login st2
                in (True, st3)))
      | Failed err \<Rightarrow>
          (False, assign login (\<lambda>l. l\<lparr>error := Some (formatError err),
                                       errorStatus := getStatusCode err\<rparr>) st))"

subsection \<open>waitForWebLogin\<close>

text \<open>Modelled from the spec: \<open>logoutWeb\<close> of session.js, which is not part of the
  sources at hand; the spec has it as \<open>clearPersistedCredentials()\<close>.\<close>

definition logoutWeb :: "world \<Rightarrow> world" where
  "logoutWeb st = st\<lparr>webAuth := False\<rparr>"

text \<open>The generic failure at the end of the \<open>if (login.error)\<close> block.\<close>

definition wait_fail :: "login_ref \<Rightarrow> world \<Rightarrow> task \<times> world" where
  "wait_fail login st =
     (let message = MSG_login_failed (error (heap st login));
          st1 = resetActiveLogin (Some message) st;
          st2 = runtime_log Danger message st1
      in (WaitReturned \<lparr>wr_connected = False, wr_message = message\<rparr>, st2))"

text \<open>The loop body after the race was won by \<open>login.waitPromise\<close>. The parameter
  \<open>loggedOut\<close> is \<open>DisconnectReason.loggedOut\<close> of the transport library. In the 515
  branch, \<open>restarted\<close> can only be false when \<open>restartLoginSocket\<close> returns without
  suspending, so that the \<open>continue\<close> is not taken there.\<close>

definition wait_done :: "int \<Rightarrow> login_ref \<Rightarrow> int \<Rightarrow> world \<Rightarrow> task \<times> world" where
  "wait_done loggedOut login deadline st =
     (if truthy (error (heap st login)) then
        if errorStatus (heap st login) = Some loggedOut then (WaitLogout login, st)
        else if errorStatus (heap st login) = Some 515 then
          (case restartLoginSocket_begin login st of
             (None, st1) \<Rightarrow> (WaitRestart login deadline, st1)
           | (Some restarted, st1) \<Rightarrow> wait_fail login st1)
        else wait_fail login st
      else if connected (heap st login) then
        (let st1 = runtime_log Success MSG_linked st;
             st2 = resetActiveLogin None st1
         in (WaitReturned \<lparr>wr_connected = True, wr_message = MSG_linked\<rparr>, st2))
      else (WaitReturned \<lparr>wr_connected = False, wr_message = MSG_ended\<rparr>, st))"

text \<open>The race was won by the timer.\<close>

definition wait_timeout :: "world \<Rightarrow> task \<times> world" where
  "wait_timeout st = (WaitReturned \<lparr>wr_connected = False, wr_message = MSG_still_waiting\<rparr>, st)"

text \<open>The head of the \<open>while (true)\<close> loop. A promise that is settled already wins the
  race against a timer of positive delay.\<close>

definition wait_loop :: "int \<Rightarrow> login_ref \<Rightarrow> int \<Rightarrow> world \<Rightarrow> task \<times> world" where
  "wait_loop loggedOut login deadline st =
     (let remaining = deadline - now st in
      if remaining \<le> 0
      then (WaitReturned \<lparr>wr_connected = False, wr_message = MSG_still_waiting\<rparr>, st)
      else
        (let p = waitPromise (heap st login) in
         if settled st p then wait_done loggedOut login deadline st
         else (WaitRace login deadline p, st)))"

text \<open>After \<open>await logoutWeb(runtime)\<close>.\<close>

definition wait_logout_resume :: "login_ref \<Rightarrow> world \<Rightarrow> task \<times> world" where
  "wait_logout_resume login st =
     (let st0 = logoutWeb st;
          message = MSG_logged_out;
          st1 = resetActiveLogin (Some message) st0;
          st2 = runtime_log Danger message st1
      in (WaitReturned \<lparr>wr_connected = False, wr_message = message\<rparr>, st2))"

text \<open>After \<open>await restartLoginSocket(login, runtime)\<close>, when that call had to wait for
  \<open>createWaSocket\<close>.\<close>

definition wait_restart_resume ::
  "int \<Rightarrow> login_ref \<Rightarrow> int \<Rightarrow> unit settle \<Rightarrow> world \<Rightarrow> task \<times> world" where
  "wait_restart_resume loggedOut login deadline r st =
     (case restartLoginSocket_resume login r st of
        (restarted, st1) \<Rightarrow>
          if restarted \<and> isLoginFresh login st1 then wait_loop loggedOut login deadline st1
          else wait_fail login st1)"

text \<open>The call itself, up to its first await or its return.\<close>

definition wait_call :: "int \<Rightarrow> int option \<Rightarrow> world \<Rightarrow> task \<times> world" where
  "wait_call loggedOut timeoutMs st =
     (case activeLogin st of
        None \<Rightarrow> (WaitReturned \<lparr>wr_connected = False, wr_message = MSG_no_login\<rparr>, st)
      | Some login \<Rightarrow>
          if \<not> isLoginFresh login st
          then (WaitReturned \<lparr>wr_connected = False, wr_message = MSG_expired\<rparr>,
                resetActiveLogin None st)
          else
            (let timeout = max (case timeoutMs of None \<Rightarrow> 120000 | Some t \<Rightarrow> t) 1000;
                 deadline = now st + timeout
             in wait_loop loggedOut login deadline st))"

subsection \<open>startWebLoginWithQr\<close>

definition clearTimeout :: "task_id \<Rightarrow> world \<Rightarrow> world" where
  "clearTimeout tid st = st\<lparr>qrTimer := (qrTimer st)(tid := None)\<rparr>"

text \<open>\<open>resolveQr\<close> and \<open>rejectQr\<close>: a promise settles once.\<close>

definition resolveQr :: "task_id \<Rightarrow> string \<Rightarrow> world \<Rightarrow> world" where
  "resolveQr tid code st =
     (if qrPromise st tid = Some QrPending
      then st\<lparr>qrPromise := (qrPromise st)(tid \<mapsto> QrResolved code)\<rparr> else st)"

definition rejectQr :: "task_id \<Rightarrow> string \<Rightarrow> world \<Rightarrow> world" where
  "rejectQr tid msg st =
     (if qrPromise st tid = Some QrPending
      then st\<lparr>qrPromise := (qrPromise st)(tid \<mapsto> QrRejected msg)\<rparr> else st)"

text \<open>The \<open>onQr\<close> callback that the call \<open>tid\<close> hands to \<open>createWaSocket\<close>.\<close>

definition onQr :: "task_id \<Rightarrow> string \<Rightarrow> world \<Rightarrow> world" where
  "onQr tid code st =
     (case activeLogin st of
        None \<Rightarrow> st
      | Some a \<Rightarrow>
          if truthy (qr (heap st a)) then st
          else
            (let st1 = assign a (\<lambda>l. l\<lparr>qr := Some code\<rparr>) st;
                 st2 = clearTimeout tid st1;
                 st3 = runtime_log Info MSG_qr_received st2
             in resolveQr tid code st3))"

text \<open>The callback of \<open>qrTimer\<close>.\<close>

definition qr_timer_fire :: "task_id \<Rightarrow> world \<Rightarrow> world" where
  "qr_timer_fire tid st = rejectQr tid MSG_qr_timed_out (st\<lparr>qrTimer := (qrTimer st)(tid := None)\<rparr>)"

text \<open>From \<open>await resetActiveLogin()\<close> to the call of \<open>createWaSocket\<close>.\<close>

definition start_open :: "task_id \<Rightarrow> start_opts \<Rightarrow> world \<Rightarrow> task \<times> world" where
  "start_open tid opts st =
     (let st1 = resetActiveLogin None st;
          delay = max (case opt_timeoutMs opts of None \<Rightarrow> 30000 | Some t \<Rightarrow> t) 5000;
          st2 = st1\<lparr>qrPromise := (qrPromise st1)(tid \<mapsto> QrPending),
                    qrTimer := (qrTimer st1)(tid \<mapsto> now st1 + delay)\<rparr>
      in (StartAwaitSock opts, st2))"

text \<open>From the outcome of \<open>await webAuthExists()\<close> on.\<close>

definition start_auth_resume ::
  "task_id \<Rightarrow> start_opts \<Rightarrow> unit settle \<Rightarrow> world \<Rightarrow> task \<times> world" where
  "start_auth_resume tid opts r st =
     (case r of
        Failed err \<Rightarrow> (Threw err, st)
      | Fulfilled _ \<Rightarrow>
          (let hasWeb = webAuth st in
           if hasWeb \<and> \<not> Boolean (opt_force opts) then
             (let who = (case fst (selfId st) of
                           Some e164 \<Rightarrow> e164
                         | None \<Rightarrow> (case snd (selfId st) of Some jid \<Rightarrow> jid | None \<Rightarrow> ''unknown''))
              in (StartReturned \<lparr>sr_qrDataUrl = None, sr_message = MSG_already_linked who\<rparr>, st))
           else
             (case activeLogin st of
                None \<Rightarrow> start_open tid opts st
              | Some a \<Rightarrow>
                  if isLoginFresh a st \<and> truthy (qrDataUrl (heap st a))
                  then (StartReturned \<lparr>sr_qrDataUrl = qrDataUrl (heap st a),
                                       sr_message = MSG_qr_active\<rparr>, st)
                  else start_open tid opts st)))"

text \<open>\<open>await qrPromise\<close> with its \<open>catch\<close>, and the call of the renderer.\<close>

definition start_await_qr :: "task_id \<Rightarrow> login_ref \<Rightarrow> world \<Rightarrow> task \<times> world" where
  "start_await_qr tid login st =
     (case qrPromise st tid of
        Some (QrResolved code) \<Rightarrow> (StartAwaitRender login code, st)
      | Some (QrRejected msg) \<Rightarrow>
          (let st1 = clearTimeout tid st;
               st2 = resetActiveLogin None st1
           in (StartReturned \<lparr>sr_qrDataUrl = None,
                               sr_message = MSG_failed_qr (String_Error msg)\<rparr>, st2))
      | _ \<Rightarrow> (StartAwaitQr login, st))"

text \<open>From the outcome of \<open>await createWaSocket(...)\<close> on.\<close>

definition start_sock_resume ::
  "task_id \<Rightarrow> start_opts \<Rightarrow> unit settle \<Rightarrow> world \<Rightarrow> task \<times> world" where
  "start_sock_resume tid opts r st =
     (case r of
        Failed err \<Rightarrow>
          (let st1 = clearTimeout tid st;
               st2 = resetActiveLogin None st1
           in (StartReturned \<lparr>sr_qrDataUrl = None,
                               sr_message = MSG_failed_start (String_of err)\<rparr>, st2))
      | Fulfilled _ \<Rightarrow>
          (case new_socket st of
             (s, st1) \<Rightarrow>
               (let login = next_login st1;
                    st2 = st1\<lparr>next_login := login + 1,
                              heap := (heap st1)(login :=
                                \<lparr>id_login = login, sock = s, startedAt = now st1, qr = None,
                                 qrDataUrl = None, connected = False, error = None,
                                 errorStatus = None, waitPromise = Promise_resolve,
                                 restartAttempted = False,
                                 verbose = Boolean (opt_verbose opts)\<rparr>)\<rparr>;
                    st3 = st2\<lparr>activeLogin := Some login\<rparr>;
                    st4 = attachLoginWaiter login st3
                in start_await_qr tid login st4)))"

text \<open>From the outcome of \<open>await renderQrPngBase64(qr)\<close> on.\<close>

definition start_render_resume :: "login_ref \<Rightarrow> string settle \<Rightarrow> world \<Rightarrow> task \<times> world" where
  "start_render_resume login r st =
     (case r of
        Failed err \<Rightarrow> (Threw err, st)
      | Fulfilled base64 \<Rightarrow>
          (let st1 = assign login (\<lambda>l. l\<lparr>qrDataUrl := Some (''data:image/png;base64,'' @ base64)\<rparr>) st
           in (StartReturned \<lparr>sr_qrDataUrl = qrDataUrl (heap st1 login),
                               sr_message = MSG_scan\<rparr>, st1)))"

subsection \<open>The event loop\<close>

text \<open>One event is one uninterrupted run of code: a call of an exported function up to
  its first await, the resumption of a suspended call by the outcome it awaits, a
  callback of the transport, a timer. Time passes between events (\<open>Tick\<close>), and the
  credential store may change outside this module (\<open>Env_creds\<close>). The clock does not
  move within one event.

  Calls are cut at the awaits of the collaborators (\<open>webAuthExists\<close>,
  \<open>createWaSocket\<close>, \<open>renderQrPngBase64\<close>, \<open>logoutWeb\<close>) and at the awaits of
  \<open>qrPromise\<close> and of the race. \<open>resetActiveLogin\<close> has no await in its body, and
  \<open>restartLoginSocket\<close> has none on its early return: an await of their result gives way
  to queued microtasks only, and the calls are not cut there. A call waiting for a
  promise of this module is resumed by an event of its own (\<open>Qr_settled\<close>,
  \<open>Wait_wake\<close>), which is possible once the promise is settled; other events may come
  in between, which is more than the host allows. Any number of calls may be in progress.\<close>

datatype event =
    Call_start start_opts
  | Auth_done task_id "unit settle"
  | Sock_done task_id "unit settle"
  | Qr_emit task_id string
  | Qr_timer task_id
  | Qr_settled task_id
  | Render_done task_id "string settle"
  | Call_wait "int option"
  | Conn_settle nat "unit settle"
  | Wait_wake task_id
  | Wait_timer task_id
  | Logout_done task_id
  | Tick nat
  | Env_creds bool

definition spawn :: "task \<times> world \<Rightarrow> world" where
  "spawn r = (case r of (t, st) \<Rightarrow>
     st\<lparr>tasks := (tasks st)(next_task st \<mapsto> t), next_task := next_task st + 1\<rparr>)"

definition resume :: "task_id \<Rightarrow> task \<times> world \<Rightarrow> world" where
  "resume tid r = (case r of (t, st) \<Rightarrow> st\<lparr>tasks := (tasks st)(tid \<mapsto> t)\<rparr>)"

fun on_auth_done :: "task_id \<Rightarrow> unit settle \<Rightarrow> task \<Rightarrow> world \<Rightarrow> world" where
  "on_auth_done tid r (StartAwaitAuth opts) st = resume tid (start_auth_resume tid opts r st)"
| "on_auth_done tid r _ st = st"

fun on_sock_done :: "int \<Rightarrow> task_id \<Rightarrow> unit settle \<Rightarrow> task \<Rightarrow> world \<Rightarrow> world" where
  "on_sock_done lo tid r (StartAwaitSock opts) st = resume tid (start_sock_resume tid opts r st)"
| "on_sock_done lo tid r (WaitRestart login deadline) st =
     resume tid (wait_restart_resume lo login deadline r st)"
| "on_sock_done lo tid r _ st = st"

fun on_qr_settled :: "task_id \<Rightarrow> task \<Rightarrow> world \<Rightarrow> world" where
  "on_qr_settled tid (StartAwaitQr login) st = resume tid (start_await_qr tid login st)"
| "on_qr_settled tid _ st = st"

fun on_render_done :: "task_id \<Rightarrow> string settle \<Rightarrow> task \<Rightarrow> world \<Rightarrow> world" where
  "on_render_done tid r (StartAwaitRender login code) st = resume tid (start_render_resume login r st)"
| "on_render_done tid r _ st = st"

fun on_wait_wake :: "int \<Rightarrow> task_id \<Rightarrow> task \<Rightarrow> world \<Rightarrow> world" where
  "on_wait_wake lo tid (WaitRace login deadline p) st =
     (if settled st p then resume tid (wait_done lo login deadline st) else st)"
| "on_wait_wake lo tid _ st = st"

fun on_wait_timer :: "task_id \<Rightarrow> task \<Rightarrow> world \<Rightarrow> world" where
  "on_wait_timer tid (WaitRace login deadline p) st =
     (if deadline \<le> now st then resume tid (wait_timeout st) else st)"
| "on_wait_timer tid _ st = st"

fun on_logout_done :: "task_id \<Rightarrow> task \<Rightarrow> world \<Rightarrow> world" where
  "on_logout_done tid (WaitLogout login) st = resume tid (wait_logout_resume login st)"
| "on_logout_done tid _ st = st"

definition with_task :: "task_id \<Rightarrow> (task \<Rightarrow> world \<Rightarrow> world) \<Rightarrow> world \<Rightarrow> world" where
  "with_task tid f st = (case tasks st tid of None \<Rightarrow> st | Some t \<Rightarrow> f t st)"

text \<open>The parameter \<open>lo\<close> is \<open>DisconnectReason.loggedOut\<close>.\<close>

fun step :: "int \<Rightarrow> event \<Rightarrow> world \<Rightarrow> world" where
  "step lo (Call_start opts) st = spawn (StartAwaitAuth opts, st)"
| "step lo (Auth_done tid r) st = with_task tid (on_auth_done tid r) st"
| "step lo (Sock_done tid r) st = with_task tid (on_sock_done lo tid r) st"
| "step lo (Qr_emit tid code) st = (if qrPromise st tid = None then st else onQr tid code st)"
| "step lo (Qr_timer tid) st =
     (case qrTimer st tid of
        None \<Rightarrow> st
      | Some due \<Rightarrow> if due \<le> now st then qr_timer_fire tid st else st)"
| "step lo (Qr_settled tid) st = with_task tid (on_qr_settled tid) st"
| "step lo (Render_done tid r) st = with_task tid (on_render_done tid r) st"
| "step lo (Call_wait timeoutMs) st = spawn (wait_call lo timeoutMs st)"
| "step lo (Conn_settle p outcome) st = conn_settle p outcome st"
| "step lo (Wait_wake tid) st = with_task tid (on_wait_wake lo tid) st"
| "step lo (Wait_timer tid) st = with_task tid (on_wait_timer tid) st"
| "step lo (Logout_done tid) st = with_task tid (on_logout_done tid) st"
| "step lo (Tick d) st = st\<lparr>now := now st + int d\<rparr>"
| "step lo (Env_creds b) st = st\<lparr>webAuth := b\<rparr>"

definition run :: "int \<Rightarrow> event list \<Rightarrow> world \<Rightarrow> world" where
  "run lo evs st = foldl (\<lambda>s ev. step lo ev s) st evs"

text \<open>The module as loaded: \<open>activeLogin = null\<close>, nothing pending. A reference that no
  object literal has been evaluated for yet points at a blank object.\<close>

definition blank :: "login_ref \<Rightarrow> ActiveLogin" where
  "blank r = \<lparr>id_login = r, sock = 0, startedAt = 0, qr = None, qrDataUrl = None,
              connected = False, error = None, errorStatus = None,
              waitPromise = Promise_resolve, restartAttempted = False, verbose = False\<rparr>"

definition init :: "bool \<Rightarrow> string option \<times> string option \<Rightarrow> int \<Rightarrow> world" where
  "init auth self t0 =
     \<lparr>activeLogin = None, heap = blank, next_login = 0, next_sock = 0, closes = [],
      waiters = Map.empty, next_promise = 0, qrPromise = Map.empty, qrTimer = Map.empty,
      tasks = Map.empty, next_task = 0, now = t0, webAuth = auth, selfId = self, logs = []\<rparr>"

section \<open>Consistency of the world\<close>

text \<open>What holds in every world the module can reach. \<open>relevant\<close> picks the fields of an
  attempt that the conditions below talk about.\<close>

definition relevant :: "ActiveLogin \<Rightarrow> nat \<times> bool \<times> string option \<times> bool" where
  "relevant l = (id_login l, connected l, error l, restartAttempted l)"

text \<open>An object's id is its reference: ids are never reused.\<close>

definition I_ids :: "world \<Rightarrow> bool" where
  "I_ids st \<longleftrightarrow> (\<forall>a. id_login (heap st a) = a)"

definition I_excl :: "world \<Rightarrow> bool" where
  "I_excl st \<longleftrightarrow> (\<forall>a. \<not> (connected (heap st a) \<and> error (heap st a) \<noteq> None))"

text \<open>An attempt with a pending continuation has neither marker set.\<close>

definition I_wait :: "world \<Rightarrow> bool" where
  "I_wait st \<longleftrightarrow> (\<forall>p s a. waiters st p = Some (s, a) \<longrightarrow>
        a < next_login st \<and> \<not> connected (heap st a) \<and> error (heap st a) = None)"

text \<open>An attempt has at most one pending continuation.\<close>

definition I_wuniq :: "world \<Rightarrow> bool" where
  "I_wuniq st \<longleftrightarrow>
     (\<forall>p q s s' a. waiters st p = Some (s, a) \<and> waiters st q = Some (s', a) \<longrightarrow> p = q)"

text \<open>While \<open>restartLoginSocket\<close> waits for the new socket of an attempt, the attempt is
  not connected, is marked as restarted and has no pending continuation.\<close>

definition I_win :: "world \<Rightarrow> bool" where
  "I_win st \<longleftrightarrow> (\<forall>tid a dl. tasks st tid = Some (WaitRestart a dl) \<longrightarrow>
        a < next_login st \<and> \<not> connected (heap st a) \<and> restartAttempted (heap st a) \<and>
        (\<forall>p s. waiters st p \<noteq> Some (s, a)))"

text \<open>At most one call is restarting an attempt.\<close>

definition I_winuniq :: "world \<Rightarrow> bool" where
  "I_winuniq st \<longleftrightarrow> (\<forall>tid tid' a dl dl'. tasks st tid = Some (WaitRestart a dl) \<and>
        tasks st tid' = Some (WaitRestart a dl') \<longrightarrow> tid = tid')"

text \<open>References held by waiting calls and by the slot point at created objects.\<close>

definition I_race :: "world \<Rightarrow> bool" where
  "I_race st \<longleftrightarrow> (\<forall>tid a dl p. tasks st tid = Some (WaitRace a dl p) \<longrightarrow> a < next_login st)"

definition I_slot :: "world \<Rightarrow> bool" where
  "I_slot st \<longleftrightarrow> (\<forall>a. activeLogin st = Some a \<longrightarrow> a < next_login st)"

definition consistent :: "world \<Rightarrow> bool" where
  "consistent st \<longleftrightarrow> I_ids st \<and> I_excl st \<and> I_wait st \<and> I_wuniq st \<and> I_win st \<and> I_winuniq st \<and>
     I_race st \<and> I_slot st"

section \<open>Example runs\<close>

text \<open>Concrete inputs on which the properties below are evaluated. In all of them
  \<open>DisconnectReason.loggedOut\<close> is 401.\<close>

definition ex_opts :: start_opts where
  "ex_opts = \<lparr>opt_verbose = None, opt_timeoutMs = None, opt_force = None\<rparr>"

definition ex_err :: "int option \<Rightarrow> js_error" where
  "ex_err status = JsError ''Error: Connection Failure'' ''Connection Failure'' status"

text \<open>A start that gets its code and renders it (Scenario B of the spec).\<close>

definition ex_start :: "event list" where
  "ex_start = [Call_start ex_opts, Auth_done 0 (Fulfilled ()), Sock_done 0 (Fulfilled ()),
     Qr_emit 0 ''2@abc'', Qr_settled 0, Render_done 0 (Fulfilled ''iVBORw0KGgo='')]"

definition ex_login :: ActiveLogin where
  "ex_login = \<lparr>id_login = 0, sock = 0, startedAt = 1000, qr = Some ''2@abc'',
      qrDataUrl = Some ''data:image/png;base64,iVBORw0KGgo='', connected = False, error = None,
      errorStatus = None, waitPromise = Chained 0, restartAttempted = False, verbose = False\<rparr>"

text \<open>The world after \<open>ex_start\<close>: attempt 0 is pending with its artifact.\<close>

definition ex_pending :: world where
  "ex_pending =
     \<lparr>activeLogin = Some 0, heap = blank(0 := ex_login), next_login = 1, next_sock = 1,
      closes = [], waiters = [0 \<mapsto> (0, 0)], next_promise = 1,
      qrPromise = [0 \<mapsto> QrResolved ''2@abc''], qrTimer = Map.empty(0 := None),
      tasks = [0 \<mapsto> StartReturned \<lparr>sr_qrDataUrl = Some ''data:image/png;base64,iVBORw0KGgo='',
                                       sr_message = MSG_scan\<rparr>],
      next_task = 1, now = 1000, webAuth = False, selfId = (None, None),
      logs = [RuntimeLog Info MSG_qr_received]\<rparr>"

text \<open>Three minutes later a second start replaces attempt 0 by attempt 1, while the
  continuation of attempt 0 is still pending.\<close>

definition ex_superseded :: world where
  "ex_superseded =
     run 401 [Tick 180000, Call_start ex_opts, Auth_done 1 (Fulfilled ()), Sock_done 1 (Fulfilled ())]
       ex_pending"

text \<open>Scenario D of the spec: the first completion signal is rejected with status 515
  while a call waits, the restart succeeds, and the new signal is fulfilled.\<close>

definition ex_restart_1 :: "event list" where
  "ex_restart_1 = ex_start @ [Call_wait None, Conn_settle 0 (Failed (ex_err (Some 515)))]"

definition ex_restart_2 :: "event list" where
  "ex_restart_2 = [Wait_wake 1, Sock_done 1 (Fulfilled ()), Conn_settle 1 (Fulfilled ())]"






section \<open>The four kinds of result of a start\<close>




section \<open>A start call that has no code\<close>



section \<open>Example runs of the code callback\<close>





section \<open>Properties\<close>

lemmas model_defs =
  truthy_def Boolean_def template_def String_Error_def ACTIVE_LOGIN_TTL_MS_def runtime_log_def
  logInfo_def assign_def closeSocket_def resetActiveLogin_def isLoginFresh_def waiter_then_def
  waiter_catch_def attachLoginWaiter_def conn_settle_def settled_def new_socket_def
  restartLoginSocket_begin_def restartLoginSocket_resume_def logoutWeb_def wait_fail_def
  wait_done_def wait_timeout_def wait_loop_def wait_logout_resume_def wait_restart_resume_def
  wait_call_def clearTimeout_def resolveQr_def rejectQr_def onQr_def qr_timer_fire_def
  start_open_def start_auth_resume_def start_await_qr_def start_sock_resume_def
  start_render_resume_def spawn_def resume_def with_task_def run_def init_def Let_def

lemma run_Nil: "run lo [] st = st"
  by (simp add: run_def)

lemma run_Cons: "run lo (ev # evs) st = run lo evs (step lo ev st)"
  by (simp add: run_def)

lemma run_append: "run lo (evs @ evs') st = run lo evs' (run lo evs st)"
  by (simp add: run_def)

lemma run_snoc: "run lo (evs @ [ev]) st = step lo ev (run lo evs st)"
  by (simp add: run_def)

subsection \<open>Effects of reset, and a case rule for the event loop\<close>


lemma resetActiveLogin_eq:
  "resetActiveLogin reason st =
     st\<lparr>closes := closes st @ (case activeLogin st of None \<Rightarrow> [] | Some a \<Rightarrow> [sock (heap st a)]),
        activeLogin := None,
        logs := logs st @ (case reason of None \<Rightarrow> [] | Some r \<Rightarrow> if r \<noteq> [] then [LogInfo r] else [])\<rparr>"
  by (simp add: resetActiveLogin_def closeSocket_def logInfo_def split: option.splits)

lemmas seg_defs =
  truthy_def runtime_log_def
  assign_def closeSocket_def resetActiveLogin_eq isLoginFresh_def waiter_then_def
  waiter_catch_def attachLoginWaiter_def conn_settle_def settled_def new_socket_def
  restartLoginSocket_begin_def restartLoginSocket_resume_def logoutWeb_def wait_fail_def
  wait_done_def wait_timeout_def wait_loop_def wait_logout_resume_def wait_restart_resume_def
  wait_call_def clearTimeout_def resolveQr_def rejectQr_def onQr_def qr_timer_fire_def
  start_open_def start_auth_resume_def start_await_qr_def start_sock_resume_def
  start_render_resume_def spawn_def resume_def Let_def

lemma with_task_cases:
  assumes "P st" and "\<And>t. tasks st tid = Some t \<Longrightarrow> P (f t st)"
  shows "P (with_task tid f st)"
  using assms by (auto simp: with_task_def split: option.splits)

lemma step_cases [case_names call_start auth_done start_sock restart_sock qr_emit qr_timer
    qr_settled render_done call_wait conn_settle wait_wake wait_timer logout_done tick creds idle]:
  assumes "\<And>opts. ev = Call_start opts \<Longrightarrow> P (spawn (StartAwaitAuth opts, st))"
    and "\<And>tid opts r. ev = Auth_done tid r \<Longrightarrow> tasks st tid = Some (StartAwaitAuth opts) \<Longrightarrow>
           P (resume tid (start_auth_resume tid opts r st))"
    and "\<And>tid opts r. ev = Sock_done tid r \<Longrightarrow> tasks st tid = Some (StartAwaitSock opts) \<Longrightarrow>
           P (resume tid (start_sock_resume tid opts r st))"
    and "\<And>tid login deadline r. ev = Sock_done tid r \<Longrightarrow> tasks st tid = Some (WaitRestart login deadline) \<Longrightarrow>
           P (resume tid (wait_restart_resume lo login deadline r st))"
    and "\<And>tid code. ev = Qr_emit tid code \<Longrightarrow> qrPromise st tid \<noteq> None \<Longrightarrow> P (onQr tid code st)"
    and "\<And>tid due. ev = Qr_timer tid \<Longrightarrow> qrTimer st tid = Some due \<Longrightarrow> due \<le> now st \<Longrightarrow>
           P (qr_timer_fire tid st)"
    and "\<And>tid login. ev = Qr_settled tid \<Longrightarrow> tasks st tid = Some (StartAwaitQr login) \<Longrightarrow>
           P (resume tid (start_await_qr tid login st))"
    and "\<And>tid login code r. ev = Render_done tid r \<Longrightarrow> tasks st tid = Some (StartAwaitRender login code) \<Longrightarrow>
           P (resume tid (start_render_resume login r st))"
    and "\<And>timeoutMs. ev = Call_wait timeoutMs \<Longrightarrow> P (spawn (wait_call lo timeoutMs st))"
    and "\<And>p outcome. ev = Conn_settle p outcome \<Longrightarrow> P (conn_settle p outcome st)"
    and "\<And>tid login deadline p. ev = Wait_wake tid \<Longrightarrow> tasks st tid = Some (WaitRace login deadline p) \<Longrightarrow>
           settled st p \<Longrightarrow> P (resume tid (wait_done lo login deadline st))"
    and "\<And>tid login deadline p. ev = Wait_timer tid \<Longrightarrow> tasks st tid = Some (WaitRace login deadline p) \<Longrightarrow>
           deadline \<le> now st \<Longrightarrow> P (resume tid (wait_timeout st))"
    and "\<And>tid login. ev = Logout_done tid \<Longrightarrow> tasks st tid = Some (WaitLogout login) \<Longrightarrow>
           P (resume tid (wait_logout_resume login st))"
    and "\<And>d. ev = Tick d \<Longrightarrow> P (st\<lparr>now := now st + int d\<rparr>)"
    and "\<And>b. ev = Env_creds b \<Longrightarrow> P (st\<lparr>webAuth := b\<rparr>)"
    and "P st"
  shows "P (step lo ev st)"
proof (cases ev)
  case (Auth_done tid r)
  have "P (on_auth_done tid r t st)" if "tasks st tid = Some t" for t
    using that assms(2)[OF Auth_done] assms(16) by (cases t) simp_all
  then show ?thesis by (simp add: Auth_done with_task_cases assms(16))
next
  case (Sock_done tid r)
  have "P (on_sock_done lo tid r t st)" if "tasks st tid = Some t" for t
    using that assms(3,4)[OF Sock_done] assms(16) by (cases t) simp_all
  then show ?thesis by (simp add: Sock_done with_task_cases assms(16))
next
  case (Qr_settled tid)
  have "P (on_qr_settled tid t st)" if "tasks st tid = Some t" for t
    using that assms(7)[OF Qr_settled] assms(16) by (cases t) simp_all
  then show ?thesis by (simp add: Qr_settled with_task_cases assms(16))
next
  case (Render_done tid r)
  have "P (on_render_done tid r t st)" if "tasks st tid = Some t" for t
    using that assms(8)[OF Render_done] assms(16) by (cases t) simp_all
  then show ?thesis by (simp add: Render_done with_task_cases assms(16))
next
  case (Wait_wake tid)
  have "P (on_wait_wake lo tid t st)" if "tasks st tid = Some t" for t
    using that assms(11)[OF Wait_wake] assms(16) by (cases t) simp_all
  then show ?thesis by (simp add: Wait_wake with_task_cases assms(16))
next
  case (Wait_timer tid)
  have "P (on_wait_timer tid t st)" if "tasks st tid = Some t" for t
    using that assms(12)[OF Wait_timer] assms(16) by (cases t) simp_all
  then show ?thesis by (simp add: Wait_timer with_task_cases assms(16))
next
  case (Logout_done tid)
  have "P (on_logout_done tid t st)" if "tasks st tid = Some t" for t
    using that assms(13)[OF Logout_done] assms(16) by (cases t) simp_all
  then show ?thesis by (simp add: Logout_done with_task_cases assms(16))
next
  case (Qr_emit tid code)
  then show ?thesis using assms(5)[OF Qr_emit] assms(16) by simp
next
  case (Qr_timer tid)
  then show ?thesis using assms(6)[OF Qr_timer] assms(16) by (simp split: option.splits)
qed (use assms in simp_all)


lemma inv_ids: "consistent st \<Longrightarrow> id_login (heap st a) = a"
  by (simp add: consistent_def I_ids_def)

lemma inv_excl: "consistent st \<Longrightarrow> connected (heap st a) \<Longrightarrow> error (heap st a) = None"
  by (auto simp: consistent_def I_excl_def)

lemma inv_wait:
  "consistent st \<Longrightarrow> waiters st p = Some (s, a) \<Longrightarrow>
   a < next_login st \<and> \<not> connected (heap st a) \<and> error (heap st a) = None"
  unfolding consistent_def I_wait_def by blast

lemma inv_wuniq: "consistent st \<Longrightarrow> waiters st p = Some (s, a) \<Longrightarrow> waiters st q = Some (s', a) \<Longrightarrow> p = q"
  unfolding consistent_def I_wuniq_def by blast

lemma inv_win:
  "consistent st \<Longrightarrow> tasks st tid = Some (WaitRestart a dl) \<Longrightarrow>
   a < next_login st \<and> \<not> connected (heap st a) \<and> restartAttempted (heap st a)"
  unfolding consistent_def I_win_def by blast

lemma inv_win_nowait:
  "consistent st \<Longrightarrow> tasks st tid = Some (WaitRestart a dl) \<Longrightarrow> waiters st p \<noteq> Some (s, a)"
  unfolding consistent_def I_win_def by blast

lemma inv_winuniq:
  "consistent st \<Longrightarrow> tasks st tid = Some (WaitRestart a dl) \<Longrightarrow> tasks st tid' = Some (WaitRestart a dl') \<Longrightarrow>
   tid = tid'"
  unfolding consistent_def I_winuniq_def by blast

lemma inv_race: "consistent st \<Longrightarrow> tasks st tid = Some (WaitRace a dl p) \<Longrightarrow> a < next_login st"
  unfolding consistent_def I_race_def by blast

lemma inv_slot: "consistent st \<Longrightarrow> activeLogin st = Some a \<Longrightarrow> a < next_login st"
  unfolding consistent_def I_slot_def by blast

lemma invI:
  assumes "\<And>a. id_login (heap st a) = a"
    and "\<And>a. connected (heap st a) \<Longrightarrow> error (heap st a) = None"
    and "\<And>p s a. waiters st p = Some (s, a) \<Longrightarrow>
           a < next_login st \<and> \<not> connected (heap st a) \<and> error (heap st a) = None"
    and "\<And>p q s s' a. waiters st p = Some (s, a) \<Longrightarrow> waiters st q = Some (s', a) \<Longrightarrow> p = q"
    and "\<And>tid a dl. tasks st tid = Some (WaitRestart a dl) \<Longrightarrow>
           a < next_login st \<and> \<not> connected (heap st a) \<and> restartAttempted (heap st a) \<and>
           (\<forall>p s. waiters st p \<noteq> Some (s, a))"
    and "\<And>tid tid' a dl dl'. tasks st tid = Some (WaitRestart a dl) \<Longrightarrow>
           tasks st tid' = Some (WaitRestart a dl') \<Longrightarrow> tid = tid'"
    and "\<And>tid a dl p. tasks st tid = Some (WaitRace a dl p) \<Longrightarrow> a < next_login st"
    and "\<And>a. activeLogin st = Some a \<Longrightarrow> a < next_login st"
  shows "consistent st"
  unfolding consistent_def
proof (intro conjI)
  show "I_ids st" using assms(1) by (simp add: I_ids_def)
  show "I_excl st" using assms(2) by (auto simp: I_excl_def)
  show "I_wait st" unfolding I_wait_def using assms(3) by blast
  show "I_wuniq st" unfolding I_wuniq_def using assms(4) by blast
  show "I_win st" unfolding I_win_def using assms(5) by blast
  show "I_winuniq st" unfolding I_winuniq_def using assms(6) by blast
  show "I_race st" unfolding I_race_def using assms(7) by blast
  show "I_slot st" unfolding I_slot_def using assms(8) by blast
qed

lemma consistent_frame:
  assumes i: "consistent st"
    and "\<And>a. relevant (heap st' a) = relevant (heap st a)"
    and "\<And>p. waiters st' p = waiters st p \<or> waiters st' p = None"
    and n: "next_login st' = next_login st"
    and sl: "activeLogin st' = activeLogin st \<or> activeLogin st' = None"
    and t: "\<And>tid a dl. tasks st' tid = Some (WaitRestart a dl) \<Longrightarrow> tasks st tid = Some (WaitRestart a dl)"
    and rc: "\<And>tid a dl p. tasks st' tid = Some (WaitRace a dl p) \<Longrightarrow> a < next_login st"
  shows "consistent st'"
proof -
  have r: "id_login (heap st' a) = id_login (heap st a)" "connected (heap st' a) = connected (heap st a)"
    "error (heap st' a) = error (heap st a)" "restartAttempted (heap st' a) = restartAttempted (heap st a)" for a
    using assms(2)[of a] by (simp_all add: relevant_def)
  have w: "waiters st p = Some x" if "waiters st' p = Some x" for p x
    using assms(3)[of p] that by auto
  show ?thesis
  proof (rule invI)
    fix a show "id_login (heap st' a) = a" using i by (simp add: r inv_ids)
  next
    fix a assume "connected (heap st' a)" then show "error (heap st' a) = None"
      using i by (simp add: r inv_excl)
  next
    fix p s a assume "waiters st' p = Some (s, a)"
    then have "waiters st p = Some (s, a)" by (rule w)
    from inv_wait[OF i this] show "a < next_login st' \<and> \<not> connected (heap st' a) \<and> error (heap st' a) = None"
      by (simp add: r n)
  next
    fix p q s s' a assume "waiters st' p = Some (s, a)" "waiters st' q = Some (s', a)"
    then have "waiters st p = Some (s, a)" "waiters st q = Some (s', a)" by (auto dest: w)
    then show "p = q" by (rule inv_wuniq[OF i])
  next
    fix tid a dl assume "tasks st' tid = Some (WaitRestart a dl)"
    then have t': "tasks st tid = Some (WaitRestart a dl)" by (rule t)
    have "waiters st' p \<noteq> Some (s, a)" for p s
      using inv_win_nowait[OF i t', of p s] w[of p "(s, a)"] by auto
    with inv_win[OF i t']
    show "a < next_login st' \<and> \<not> connected (heap st' a) \<and> restartAttempted (heap st' a) \<and>
          (\<forall>p s. waiters st' p \<noteq> Some (s, a))"
      by (simp add: r n)
  next
    fix tid tid' a dl dl'
    assume "tasks st' tid = Some (WaitRestart a dl)" "tasks st' tid' = Some (WaitRestart a dl')"
    then have "tasks st tid = Some (WaitRestart a dl)" "tasks st tid' = Some (WaitRestart a dl')"
      by (auto dest: t)
    then show "tid = tid'" by (rule inv_winuniq[OF i])
  next
    fix tid a dl p assume "tasks st' tid = Some (WaitRace a dl p)"
    then show "a < next_login st'" using rc n by simp
  next
    fix a assume "activeLogin st' = Some a"
    then have "activeLogin st = Some a" using sl by auto
    then show "a < next_login st'" using inv_slot[OF i] n by simp
  qed
qed


lemma relevantD:
  "relevant l' = relevant l \<Longrightarrow>
   id_login l' = id_login l \<and> connected l' = connected l \<and> error l' = error l \<and>
   restartAttempted l' = restartAttempted l"
  by (simp add: relevant_def)

lemma consistent_settle:
  assumes i: "consistent st" and w: "waiters st p = Some (s, a)"
    and h: "\<And>b. b \<noteq> a \<Longrightarrow> relevant (heap st' b) = relevant (heap st b)"
    and l: "id_login (heap st' a) = a" "restartAttempted (heap st' a) = restartAttempted (heap st a)"
           "connected (heap st' a) \<Longrightarrow> error (heap st' a) = None"
    and ws: "\<And>q. waiters st' q = (if q = p then None else waiters st q)"
    and n: "next_login st' = next_login st"
    and sl: "activeLogin st' = activeLogin st"
    and t: "tasks st' = tasks st"
  shows "consistent st'"
proof (rule invI)
  note r = relevantD[OF h]
  {
    fix b show "id_login (heap st' b) = b"
      using inv_ids[OF i, of b] l r[of b] by (cases "b = a") auto
  next
    fix b assume "connected (heap st' b)" then show "error (heap st' b) = None"
      using inv_excl[OF i, of b] l r[of b] by (cases "b = a") auto
  next
    fix q s' b assume "waiters st' q = Some (s', b)"
    then have q: "q \<noteq> p" "waiters st q = Some (s', b)" by (auto simp: ws split: if_splits)
    then have "b \<noteq> a" using inv_wuniq[OF i w, of q s'] by auto
    then show "b < next_login st' \<and> \<not> connected (heap st' b) \<and> error (heap st' b) = None"
      using inv_wait[OF i q(2)] r[of b] by (simp add: n)
  next
    fix q q' s1 s2 b assume "waiters st' q = Some (s1, b)" "waiters st' q' = Some (s2, b)"
    then have "waiters st q = Some (s1, b)" "waiters st q' = Some (s2, b)"
      by (auto simp: ws split: if_splits)
    then show "q = q'" by (rule inv_wuniq[OF i])
  next
    fix tid b dl assume "tasks st' tid = Some (WaitRestart b dl)"
    then have tb: "tasks st tid = Some (WaitRestart b dl)" by (simp add: t)
    then have "b \<noteq> a" using inv_win_nowait[OF i tb, of p s] w by auto
    moreover have "waiters st' q \<noteq> Some (s', b)" for q s'
      using inv_win_nowait[OF i tb, of q s'] by (auto simp: ws)
    ultimately show "b < next_login st' \<and> \<not> connected (heap st' b) \<and> restartAttempted (heap st' b) \<and>
        (\<forall>p s. waiters st' p \<noteq> Some (s, b))"
      using inv_win[OF i tb] r[of b] by (simp add: n)
  next
    fix tid tid' b dl dl'
    assume "tasks st' tid = Some (WaitRestart b dl)" "tasks st' tid' = Some (WaitRestart b dl')"
    then show "tid = tid'" using inv_winuniq[OF i] by (simp add: t)
  next
    fix tid b dl q assume "tasks st' tid = Some (WaitRace b dl q)"
    then show "b < next_login st'" using inv_race[OF i] by (simp add: t n)
  next
    fix b assume "activeLogin st' = Some b"
    then show "b < next_login st'" using inv_slot[OF i] by (simp add: sl n)
  }
qed

lemma consistent_restart_begin:
  assumes i: "consistent st" and a: "a < next_login st" and e: "error (heap st a) \<noteq> None"
    and f: "\<not> restartAttempted (heap st a)"
    and h: "\<And>b. b \<noteq> a \<Longrightarrow> relevant (heap st' b) = relevant (heap st b)"
    and l: "id_login (heap st' a) = a" "connected (heap st' a) = connected (heap st a)"
           "error (heap st' a) = error (heap st a)" "restartAttempted (heap st' a)"
    and ws: "waiters st' = waiters st"
    and n: "next_login st' = next_login st"
    and sl: "activeLogin st' = activeLogin st \<or> activeLogin st' = None"
    and t: "\<And>tid'. tid' \<noteq> tid \<Longrightarrow> tasks st' tid' = tasks st tid'"
           "tasks st' tid = Some (WaitRestart a dl)"
  shows "consistent st'"
proof (rule invI)
  note r = relevantD[OF h]
  have nc: "\<not> connected (heap st a)" using inv_excl[OF i, of a] e by auto
  have nw: "waiters st q \<noteq> Some (s', a)" for q s'
    using inv_wait[OF i, of q s' a] e by auto
  have no: "tasks st t' \<noteq> Some (WaitRestart a d)" for t' d
    using inv_win[OF i, of t' a d] f by auto
  {
    fix b show "id_login (heap st' b) = b"
      using inv_ids[OF i, of b] l r[of b] by (cases "b = a") auto
  next
    fix b assume "connected (heap st' b)" then show "error (heap st' b) = None"
      using inv_excl[OF i, of b] l r[of b] nc by (cases "b = a") auto
  next
    fix q s' b assume q: "waiters st' q = Some (s', b)"
    then have "b \<noteq> a" using nw by (auto simp: ws)
    then show "b < next_login st' \<and> \<not> connected (heap st' b) \<and> error (heap st' b) = None"
      using inv_wait[OF i, of q s' b] q r[of b] by (simp add: n ws)
  next
    fix q q' s1 s2 b assume "waiters st' q = Some (s1, b)" "waiters st' q' = Some (s2, b)"
    then show "q = q'" using inv_wuniq[OF i] by (simp add: ws)
  next
    fix tid' b dl' assume tb: "tasks st' tid' = Some (WaitRestart b dl')"
    show "b < next_login st' \<and> \<not> connected (heap st' b) \<and> restartAttempted (heap st' b) \<and>
        (\<forall>p s. waiters st' p \<noteq> Some (s, b))"
    proof (cases "tid' = tid")
      case True
      then have "b = a" using tb by (simp add: t)
      then show ?thesis using a nc nw l by (simp add: n ws)
    next
      case False
      then have tb': "tasks st tid' = Some (WaitRestart b dl')" using tb by (simp add: t)
      then have "b \<noteq> a" using no by auto
      then show ?thesis using inv_win[OF i tb'] inv_win_nowait[OF i tb'] r[of b] by (simp add: n ws)
    qed
  next
    fix t1 t2 b dl1 dl2
    assume t12: "tasks st' t1 = Some (WaitRestart b dl1)" "tasks st' t2 = Some (WaitRestart b dl2)"
    show "t1 = t2"
    proof (cases "t1 = tid"; cases "t2 = tid")
      assume "t1 \<noteq> tid" "t2 \<noteq> tid"
      then show ?thesis using t12 inv_winuniq[OF i, of t1 b dl1 t2 dl2] by (simp add: t)
    qed (use t12 no in \<open>auto simp: t\<close>)
  next
    fix tid' b dl' q assume "tasks st' tid' = Some (WaitRace b dl' q)"
    then show "b < next_login st'"
      using inv_race[OF i, of tid' b dl' q] t by (cases "tid' = tid") (auto simp: n)
  next
    fix b assume "activeLogin st' = Some b"
    then show "b < next_login st'" using inv_slot[OF i, of b] sl by (auto simp: n)
  }
qed

lemma consistent_restart_end:
  assumes i: "consistent st" and w: "tasks st tid = Some (WaitRestart a dl)"
    and h: "\<And>b. b \<noteq> a \<Longrightarrow> relevant (heap st' b) = relevant (heap st b)"
    and l: "id_login (heap st' a) = a" "\<not> connected (heap st' a)"
    and ws: "\<And>q s' b. waiters st' q = Some (s', b) \<Longrightarrow>
               waiters st q = Some (s', b) \<or> (b = a \<and> q = pn \<and> error (heap st' a) = None)"
    and n: "next_login st' = next_login st"
    and sl: "activeLogin st' = activeLogin st \<or> activeLogin st' = None"
    and t: "\<And>tid' b dl'. tasks st' tid' = Some (WaitRestart b dl') \<Longrightarrow>
               tid' \<noteq> tid \<and> tasks st tid' = Some (WaitRestart b dl')"
           "\<And>tid' b dl' q. tasks st' tid' = Some (WaitRace b dl' q) \<Longrightarrow> b < next_login st"
  shows "consistent st'"
proof (rule invI)
  note r = relevantD[OF h]
  note win = inv_win[OF i w] and nw = inv_win_nowait[OF i w]
  have wq: "waiters st q = Some (s', b) \<and> b \<noteq> a \<or> b = a \<and> q = pn \<and> error (heap st' a) = None"
    if "waiters st' q = Some (s', b)" for q s' b
    using ws[OF that] nw[of q s'] by auto
  {
    fix b show "id_login (heap st' b) = b"
      using inv_ids[OF i, of b] l r[of b] by (cases "b = a") auto
  next
    fix b assume "connected (heap st' b)" then show "error (heap st' b) = None"
      using inv_excl[OF i, of b] l r[of b] by (cases "b = a") auto
  next
    fix q s' b assume "waiters st' q = Some (s', b)"
    from wq[OF this] show "b < next_login st' \<and> \<not> connected (heap st' b) \<and> error (heap st' b) = None"
      using inv_wait[OF i, of q s' b] win l r[of b] by (auto simp: n)
  next
    fix q q' s1 s2 b assume qq: "waiters st' q = Some (s1, b)" "waiters st' q' = Some (s2, b)"
    show "q = q'"
    proof (cases "b = a")
      case True
      then show ?thesis using wq[OF qq(1)] wq[OF qq(2)] by auto
    next
      case False
      then have "waiters st q = Some (s1, b)" "waiters st q' = Some (s2, b)"
        using wq[OF qq(1)] wq[OF qq(2)] by auto
      then show ?thesis by (rule inv_wuniq[OF i])
    qed
  next
    fix tid' b dl' assume tb: "tasks st' tid' = Some (WaitRestart b dl')"
    from t(1)[OF this] have ne: "tid' \<noteq> tid" and tb': "tasks st tid' = Some (WaitRestart b dl')"
      by auto
    have ba: "b \<noteq> a"
    proof
      assume "b = a"
      with inv_winuniq[OF i w, of tid' dl'] tb' ne show False by auto
    qed
    moreover have "waiters st' q \<noteq> Some (s', b)" for q s'
      using wq[of q s' b] inv_win_nowait[OF i tb', of q s'] ba by auto
    ultimately show "b < next_login st' \<and> \<not> connected (heap st' b) \<and> restartAttempted (heap st' b) \<and>
        (\<forall>p s. waiters st' p \<noteq> Some (s, b))"
      using inv_win[OF i tb'] r[of b] by (simp add: n)
  next
    fix t1 t2 b dl1 dl2
    assume "tasks st' t1 = Some (WaitRestart b dl1)" "tasks st' t2 = Some (WaitRestart b dl2)"
    then have "tasks st t1 = Some (WaitRestart b dl1)" "tasks st t2 = Some (WaitRestart b dl2)"
      using t(1) by blast+
    then show "t1 = t2" by (rule inv_winuniq[OF i])
  next
    fix tid' b dl' q assume "tasks st' tid' = Some (WaitRace b dl' q)"
    then show "b < next_login st'" using t(2) by (simp add: n)
  next
    fix b assume "activeLogin st' = Some b"
    then show "b < next_login st'" using inv_slot[OF i, of b] sl by (auto simp: n)
  }
qed

lemma consistent_create:
  assumes i: "consistent st"
    and h: "\<And>b. b \<noteq> next_login st \<Longrightarrow> relevant (heap st' b) = relevant (heap st b)"
    and l: "id_login (heap st' (next_login st)) = next_login st"
           "\<not> connected (heap st' (next_login st))" "error (heap st' (next_login st)) = None"
    and ws: "\<And>q s' b. waiters st' q = Some (s', b) \<Longrightarrow>
               waiters st q = Some (s', b) \<or> (b = next_login st \<and> q = pn)"
    and n: "next_login st' = next_login st + 1"
    and sl: "activeLogin st' = Some (next_login st) \<or> activeLogin st' = None"
    and t: "\<And>tid' b dl'. tasks st' tid' = Some (WaitRestart b dl') \<Longrightarrow>
               tasks st tid' = Some (WaitRestart b dl')"
           "\<And>tid' b dl' q. tasks st' tid' = Some (WaitRace b dl' q) \<Longrightarrow> b < next_login st"
  shows "consistent st'"
proof (rule invI)
  note r = relevantD[OF h]
  have wq: "waiters st q = Some (s', b) \<and> b < next_login st \<or> b = next_login st \<and> q = pn"
    if "waiters st' q = Some (s', b)" for q s' b
    using ws[OF that] inv_wait[OF i, of q s' b] by auto
  {
    fix b show "id_login (heap st' b) = b"
      using inv_ids[OF i, of b] l r[of b] by (cases "b = next_login st") auto
  next
    fix b assume "connected (heap st' b)" then show "error (heap st' b) = None"
      using inv_excl[OF i, of b] l r[of b] by (cases "b = next_login st") auto
  next
    fix q s' b assume "waiters st' q = Some (s', b)"
    from wq[OF this] show "b < next_login st' \<and> \<not> connected (heap st' b) \<and> error (heap st' b) = None"
      using inv_wait[OF i, of q s' b] l r[of b] by (auto simp: n)
  next
    fix q q' s1 s2 b assume qq: "waiters st' q = Some (s1, b)" "waiters st' q' = Some (s2, b)"
    show "q = q'"
    proof (cases "b = next_login st")
      case True
      then show ?thesis using wq[OF qq(1)] wq[OF qq(2)] by auto
    next
      case False
      then have "waiters st q = Some (s1, b)" "waiters st q' = Some (s2, b)"
        using wq[OF qq(1)] wq[OF qq(2)] by auto
      then show ?thesis by (rule inv_wuniq[OF i])
    qed
  next
    fix tid' b dl' assume tb: "tasks st' tid' = Some (WaitRestart b dl')"
    then have tb': "tasks st tid' = Some (WaitRestart b dl')" by (rule t(1))
    then have bn: "b < next_login st" using inv_win[OF i tb'] by simp
    moreover have "waiters st' q \<noteq> Some (s', b)" for q s'
      using wq[of q s' b] inv_win_nowait[OF i tb', of q s'] bn by auto
    ultimately show "b < next_login st' \<and> \<not> connected (heap st' b) \<and> restartAttempted (heap st' b) \<and>
        (\<forall>p s. waiters st' p \<noteq> Some (s, b))"
      using inv_win[OF i tb'] r[of b] by (simp add: n)
  next
    fix t1 t2 b dl1 dl2
    assume "tasks st' t1 = Some (WaitRestart b dl1)" "tasks st' t2 = Some (WaitRestart b dl2)"
    then have "tasks st t1 = Some (WaitRestart b dl1)" "tasks st t2 = Some (WaitRestart b dl2)"
      using t(1) by blast+
    then show "t1 = t2" by (rule inv_winuniq[OF i])
  next
    fix tid' b dl' q assume "tasks st' tid' = Some (WaitRace b dl' q)"
    then show "b < next_login st'" using t(2)[of tid' b dl' q] by (simp add: n)
  next
    fix b assume "activeLogin st' = Some b"
    then show "b < next_login st'" using sl by (auto simp: n)
  }
qed




lemmas splits = option.splits settle.splits if_splits qr_state.splits

lemma consistent_next_task [simp]: "consistent (st\<lparr>next_task := x\<rparr>) = consistent st"
  by (simp add: consistent_def I_ids_def I_excl_def I_wait_def I_wuniq_def I_win_def I_winuniq_def
        I_race_def I_slot_def)

lemma spawn_resume: "spawn r = (resume (next_task (snd r)) r)\<lparr>next_task := next_task (snd r) + 1\<rparr>"
  by (cases r) (simp add: spawn_def resume_def)

lemma consistent_conn_settle:
  assumes i: "consistent st"
  shows "consistent (conn_settle p outcome st)"
proof (cases "waiters st p")
  case None
  then show ?thesis using i by (simp add: conn_settle_def)
next
  case (Some x)
  obtain s a where x: "x = (s, a)" by (cases x)
  have w: "waiters st p = Some (s, a)" using Some x by simp
  note ids = inv_ids[OF i]
  have e0: "error (heap st a) = None" "\<not> connected (heap st a)" using inv_wait[OF i w] by auto
  show ?thesis
    by (rule consistent_settle[OF i w])
       (auto simp: conn_settle_def w waiter_then_def waiter_catch_def assign_def relevant_def ids e0 Let_def
             split: splits)
qed

lemma consistent_create_step:
  assumes i: "consistent st"
  shows "consistent (resume tid (start_sock_resume tid opts (Fulfilled ()) st))"
  by (rule consistent_create[OF i, where pn = "next_promise st"])
     (auto simp: seg_defs relevant_def split: splits dest: inv_race[OF i])

lemma consistent_wait_done:
  assumes i: "consistent st" and a: "login < next_login st"
  shows "consistent (resume k (wait_done lo login dl st))"
proof (cases "truthy (error (heap st login)) \<and> errorStatus (heap st login) \<noteq> Some lo \<and>
              errorStatus (heap st login) = Some 515 \<and> \<not> restartAttempted (heap st login)")
  case True
  then have e: "error (heap st login) \<noteq> None" by (auto simp: truthy_def split: option.splits)
  show ?thesis
    by (rule consistent_restart_begin[OF i a e, where tid = k and dl = dl])
       (use True in \<open>auto simp: seg_defs relevant_def inv_ids[OF i] split: splits\<close>)
next
  case False
  show ?thesis
    by (rule consistent_frame[OF i])
       (use False a in \<open>auto simp: seg_defs relevant_def split: splits dest: inv_race[OF i]\<close>)
qed


lemma consistent_wait_loop:
  assumes i: "consistent st" and a: "login < next_login st"
  shows "consistent (resume k (wait_loop lo login dl st))"
proof (cases "0 < dl - now st \<and> settled st (waitPromise (heap st login))")
  case True
  then show ?thesis using consistent_wait_done[OF i a] by (simp add: wait_loop_def Let_def)
next
  case False
  show ?thesis
    by (rule consistent_frame[OF i])
       (use False a in \<open>auto simp: wait_loop_def resume_def relevant_def Let_def split: splits
          dest: inv_race[OF i]\<close>)
qed

lemma consistent_wait_call:
  assumes i: "consistent st"
  shows "consistent (resume k (wait_call lo timeoutMs st))"
proof (cases "\<exists>a. activeLogin st = Some a \<and> isLoginFresh a st")
  case True
  then obtain a where a: "activeLogin st = Some a" "isLoginFresh a st" by auto
  then show ?thesis
    using consistent_wait_loop[OF i inv_slot[OF i a(1)]] by (simp add: wait_call_def Let_def)
next
  case False
  show ?thesis
    by (rule consistent_frame[OF i])
       (use False in \<open>auto simp: wait_call_def resume_def relevant_def resetActiveLogin_eq Let_def
          split: splits dest: inv_race[OF i]\<close>)
qed

lemma consistent_restart_resume:
  assumes i: "consistent st" and w: "tasks st tid = Some (WaitRestart login dl)"
  shows "consistent (resume tid (wait_restart_resume lo login dl r st))"
  by (rule consistent_restart_end[OF i w, where pn = "next_promise st"])
     (use inv_win[OF i w] in \<open>auto simp: seg_defs relevant_def inv_ids[OF i] split: splits
        dest: inv_race[OF i]\<close>)

lemma consistent_step:
  assumes i: "consistent st"
  shows "consistent (step lo ev st)"
proof (induction rule: step_cases [where ev = ev and st = st and lo = lo])
  case (call_start opts)
  show ?case
    by (rule consistent_frame[OF i])
       (auto simp: spawn_def relevant_def split: splits dest: inv_race[OF i])
next
  case (auth_done tid opts r)
  show ?case
    by (rule consistent_frame[OF i])
       (use auth_done in \<open>auto simp: seg_defs relevant_def split: splits dest: inv_race[OF i]\<close>)
next
  case (start_sock tid opts r)
  show ?case
  proof (cases r)
    case (Fulfilled u)
    then show ?thesis using consistent_create_step[OF i] by simp
  next
    case (Failed err)
    show ?thesis unfolding Failed
      by (rule consistent_frame[OF i])
         (use start_sock in \<open>auto simp: seg_defs relevant_def split: splits dest: inv_race[OF i]\<close>)
  qed
next
  case (restart_sock tid login deadline r)
  then show ?case by (simp add: consistent_restart_resume[OF i])
next
  case (qr_emit tid code)
  show ?case
    by (rule consistent_frame[OF i])
       (auto simp: seg_defs relevant_def split: splits dest: inv_race[OF i])
next
  case (qr_timer tid due)
  show ?case
    by (rule consistent_frame[OF i])
       (auto simp: seg_defs relevant_def split: splits dest: inv_race[OF i])
next
  case (qr_settled tid login)
  show ?case
    by (rule consistent_frame[OF i])
       (use qr_settled in \<open>auto simp: seg_defs relevant_def split: splits dest: inv_race[OF i]\<close>)
next
  case (render_done tid login code r)
  show ?case
    by (rule consistent_frame[OF i])
       (use render_done in \<open>auto simp: seg_defs relevant_def split: splits dest: inv_race[OF i]\<close>)
next
  case (call_wait timeoutMs)
  show ?case by (simp add: spawn_resume consistent_wait_call[OF i])
next
  case (conn_settle p outcome)
  show ?case by (rule consistent_conn_settle[OF i])
next
  case (wait_wake tid login deadline p)
  then show ?case using consistent_wait_done[OF i inv_race[OF i]] by blast
next
  case (wait_timer tid login deadline p)
  show ?case
    by (rule consistent_frame[OF i])
       (use wait_timer in \<open>auto simp: seg_defs relevant_def split: splits dest: inv_race[OF i]\<close>)
next
  case (logout_done tid login)
  show ?case
    by (rule consistent_frame[OF i])
       (use logout_done in \<open>auto simp: seg_defs relevant_def split: splits dest: inv_race[OF i]\<close>)
next
  case (tick d)
  show ?case
    by (rule consistent_frame[OF i]) (auto simp: relevant_def dest: inv_race[OF i])
next
  case (creds b)
  show ?case
    by (rule consistent_frame[OF i]) (auto simp: relevant_def dest: inv_race[OF i])
next
  case idle
  show ?case by (rule i)
qed

lemma consistent_init: "consistent (init auth self t0)"
  by (rule invI) (simp_all add: init_def blank_def)

lemma consistent_run: "consistent st \<Longrightarrow> consistent (run lo evs st)"
  by (induction evs arbitrary: st) (simp_all add: run_def consistent_step)


subsection \<open>The example worlds are reachable\<close>

lemma ex_pending_reached: "run 401 ex_start (init False (None, None) 1000) = ex_pending"
  by (simp add: ex_start_def ex_opts_def ex_pending_def ex_login_def model_defs)

lemma ex_superseded_facts:
  "activeLogin ex_superseded = Some 1"
  "id_login (heap ex_superseded 1) \<noteq> id_login (heap ex_superseded 0)"
  "waiters ex_superseded 0 = Some (0, 0)"
  "closes ex_superseded = [0]"
  by (simp_all add: ex_superseded_def ex_opts_def ex_pending_def ex_login_def model_defs)

subsection \<open>The continuation of a superseded attempt\<close>

text \<open>
  Claim C5. A continuation attached for the attempt \<open>login\<close> that runs when the slot is
  empty, or holds an attempt with another id, changes nothing: both callbacks of
  \<open>attachLoginWaiter\<close> return the world as it is, and the settling of the chain changes
  only the chain's own entry among the pending ones.
\<close>

theorem stale_continuation_is_noop:
  assumes "activeLogin st = None \<or>
           (\<exists>b. activeLogin st = Some b \<and> id_login (heap st b) \<noteq> id_login (heap st login))"
  shows "waiter_then login st = st \<and> waiter_catch login err st = st \<and>
         (\<forall>p s outcome. waiters st p = Some (s, login) \<longrightarrow>
            conn_settle p outcome st = st\<lparr>waiters := (waiters st)(p := None)\<rparr>)"
  using assms
  by (auto simp: waiter_then_def waiter_catch_def conn_settle_def Let_def
           split: option.splits settle.splits)

theorem stale_continuation_is_noop_witness:
  "activeLogin ex_superseded = Some 1 \<and>
   id_login (heap ex_superseded 1) \<noteq> id_login (heap ex_superseded 0) \<and>
   waiters ex_superseded 0 = Some (0, 0) \<and>
   waiter_then 0 ex_superseded = ex_superseded \<and>
   waiter_catch 0 (ex_err (Some 515)) ex_superseded = ex_superseded \<and>
   conn_settle 0 (Failed (ex_err (Some 515))) ex_superseded =
     ex_superseded\<lparr>waiters := (waiters ex_superseded)(0 := None)\<rparr>"
proof -
  have h: "activeLogin ex_superseded = None \<or>
           (\<exists>b. activeLogin ex_superseded = Some b \<and>
                id_login (heap ex_superseded b) \<noteq> id_login (heap ex_superseded 0))"
    using ex_superseded_facts(1,2) by blast
  from stale_continuation_is_noop [OF h, of "ex_err (Some 515)"] ex_superseded_facts
  show ?thesis by blast
qed

subsection \<open>A second start while a code is pending\<close>

lemma start_reuse_step:
  assumes "tasks st tid = Some (StartAwaitAuth opts)"
    and "\<not> (webAuth st \<and> \<not> Boolean (opt_force opts))"
    and "activeLogin st = Some a" and "isLoginFresh a st"
    and "qrDataUrl (heap st a) = Some (''data:image/png;base64,'' @ b)"
  shows "step lo (Auth_done tid (Fulfilled ())) st =
         st\<lparr>tasks := (tasks st)(tid \<mapsto>
              StartReturned \<lparr>sr_qrDataUrl = Some (''data:image/png;base64,'' @ b),
                             sr_message = MSG_qr_active\<rparr>)\<rparr>"
  using assms by (auto simp: with_task_def resume_def start_auth_resume_def truthy_def)

lemma artifact_form_step:
  assumes "\<And>a u. qrDataUrl (heap st a) = Some u \<Longrightarrow> prefix ''data:image/png;base64,'' u"
    and "qrDataUrl (heap (step lo ev st) a) = Some u"
  shows "prefix ''data:image/png;base64,'' u"
  using assms(2) assms(1)[of a u]
  by (induction rule: step_cases [where ev = ev and st = st and lo = lo])
     (auto simp: seg_defs split: splits)

lemma artifact_form:
  "qrDataUrl (heap (run lo evs (init auth self t0)) a) = Some u \<Longrightarrow>
   prefix ''data:image/png;base64,'' u"
proof (induction evs arbitrary: a u rule: rev_induct)
  case Nil
  then show ?case by (simp add: run_Nil init_def blank_def)
next
  case (snoc ev evs)
  from snoc.prems show ?case unfolding run_snoc
    by (rule artifact_form_step[rotated]) (rule snoc.IH)
qed

text \<open>
  Claim C6. When the already-linked short-circuit does not apply and the slot holds a
  fresh attempt with a rendered artifact, \<open>startWebLoginWithQr\<close> returns that artifact
  and leaves the world as it is: no reset, no call of \<open>createWaSocket\<close>. Two calls in
  a row, \<open>d\<close> milliseconds apart with the attempt still fresh at the second, both return
  the artifact, and the world differs only by the two finished calls and the clock. The
  artifact is written as \<open>data:image/png;base64,\<close> followed by the renderer's output;
  in every reachable world a \<open>qrDataUrl\<close> that is set has this form (so it is never
  the empty string, which \<open>activeLogin.qrDataUrl\<close> in the condition would take for unset).
\<close>

theorem start_reuses_pending_artifact:
  assumes "\<not> (webAuth st \<and> \<not> Boolean (opt_force opts))"
    and "\<not> (webAuth st \<and> \<not> Boolean (opt_force opts2))"
    and "activeLogin st = Some a"
    and "now st + int d - startedAt (heap st a) < ACTIVE_LOGIN_TTL_MS"
    and "qrDataUrl (heap st a) = Some (''data:image/png;base64,'' @ b)"
    and "r = StartReturned \<lparr>sr_qrDataUrl = Some (''data:image/png;base64,'' @ b),
                             sr_message = MSG_qr_active\<rparr>"
    and "t1 = next_task st" and "t2 = next_task st + 1"
  shows "start_auth_resume tid opts (Fulfilled ()) st = (r, st) \<and>
         run lo [Call_start opts, Auth_done t1 (Fulfilled ()), Tick d,
                 Call_start opts2, Auth_done t2 (Fulfilled ())] st =
           st\<lparr>tasks := (tasks st)(t1 \<mapsto> r, t2 \<mapsto> r),
               next_task := next_task st + 2, now := now st + int d\<rparr> \<and>
         (qrDataUrl (heap (run lo evs (init auth self t0)) a') = Some u \<longrightarrow>
            prefix ''data:image/png;base64,'' u)"
proof -
  define st1 where "st1 = step lo (Call_start opts) st"
  define st2 where "st2 = step lo (Auth_done (next_task st) (Fulfilled ())) st1"
  define st3 where "st3 = step lo (Tick d) st2"
  define st4 where "st4 = step lo (Call_start opts2) st3"
  have fresh0: "isLoginFresh a st"
    using assms(4) by (simp add: isLoginFresh_def)
  have e0: "start_auth_resume tid opts (Fulfilled ()) st = (r, st)"
    using assms(1-6) fresh0 by (auto simp: start_auth_resume_def truthy_def)
  have e1: "st1 = st\<lparr>tasks := (tasks st)(next_task st \<mapsto> StartAwaitAuth opts),
                      next_task := next_task st + 1\<rparr>"
    by (simp add: st1_def spawn_def)
  have e2: "st2 = st\<lparr>tasks := (tasks st)(next_task st \<mapsto> r), next_task := next_task st + 1\<rparr>"
    using start_reuse_step [of st1 "next_task st" opts a b lo] assms(1-6) fresh0
    by (simp add: st2_def e1 isLoginFresh_def)
  have e3: "st3 = st\<lparr>tasks := (tasks st)(next_task st \<mapsto> r), next_task := next_task st + 1,
                      now := now st + int d\<rparr>"
    by (simp add: st3_def e2)
  have e4: "st4 = st\<lparr>tasks := (tasks st)(next_task st \<mapsto> r,
                                             next_task st + 1 \<mapsto> StartAwaitAuth opts2),
                      next_task := next_task st + 2, now := now st + int d\<rparr>"
    by (simp add: st4_def e3 spawn_def)
  have e5: "step lo (Auth_done (next_task st + 1) (Fulfilled ())) st4 =
            st\<lparr>tasks := (tasks st)(next_task st \<mapsto> r, next_task st + 1 \<mapsto> r),
                next_task := next_task st + 2, now := now st + int d\<rparr>"
    using start_reuse_step [of st4 "next_task st + 1" opts2 a b lo] assms(1-6)
    by (simp add: e4 isLoginFresh_def)
  have "run lo [Call_start opts, Auth_done (next_task st) (Fulfilled ()), Tick d,
                Call_start opts2, Auth_done (next_task st + 1) (Fulfilled ())] st =
        step lo (Auth_done (next_task st + 1) (Fulfilled ())) st4"
    by (simp only: run_Cons run_Nil flip: st1_def st2_def st3_def st4_def)
  with e0 e5 artifact_form[of lo evs auth self t0 a' u] show ?thesis
    unfolding assms(7,8) by simp
qed

theorem start_reuses_pending_artifact_witness:
  "\<not> (webAuth ex_pending \<and> \<not> Boolean (opt_force ex_opts)) \<and>
   activeLogin ex_pending = Some 0 \<and>
   now ex_pending + int 500 - startedAt (heap ex_pending 0) < ACTIVE_LOGIN_TTL_MS \<and>
   qrDataUrl (heap ex_pending 0) = Some (''data:image/png;base64,'' @ ''iVBORw0KGgo='') \<and>
   start_auth_resume 1 ex_opts (Fulfilled ()) ex_pending =
     (StartReturned \<lparr>sr_qrDataUrl = Some (''data:image/png;base64,'' @ ''iVBORw0KGgo=''),
                     sr_message = MSG_qr_active\<rparr>, ex_pending) \<and>
   tasks (run 401 [Call_start ex_opts, Auth_done 1 (Fulfilled ()), Tick 500,
                   Call_start ex_opts, Auth_done 2 (Fulfilled ())] ex_pending) 2 =
     Some (StartReturned \<lparr>sr_qrDataUrl = Some (''data:image/png;base64,'' @ ''iVBORw0KGgo=''),
                           sr_message = MSG_qr_active\<rparr>) \<and>
   next_sock (run 401 [Call_start ex_opts, Auth_done 1 (Fulfilled ()), Tick 500,
                       Call_start ex_opts, Auth_done 2 (Fulfilled ())] ex_pending) = 1"
proof -
  have h: "\<not> (webAuth ex_pending \<and> \<not> Boolean (opt_force ex_opts))"
    "activeLogin ex_pending = Some 0"
    "now ex_pending + int 500 - startedAt (heap ex_pending 0) < ACTIVE_LOGIN_TTL_MS"
    "qrDataUrl (heap ex_pending 0) = Some (''data:image/png;base64,'' @ ''iVBORw0KGgo='')"
    "1 = next_task ex_pending" "2 = next_task ex_pending + 1"
    by (simp_all add: ex_pending_def ex_login_def ACTIVE_LOGIN_TTL_MS_def)
  note c = start_reuses_pending_artifact [OF h(1) h(1) h(2) h(3) h(4) refl h(5) h(6), of 1 401]
  have n: "next_sock ex_pending = 1"
    by (simp add: ex_pending_def)
  have "tasks (run 401 [Call_start ex_opts, Auth_done 1 (Fulfilled ()), Tick 500,
                   Call_start ex_opts, Auth_done 2 (Fulfilled ())] ex_pending) 2 =
     Some (StartReturned \<lparr>sr_qrDataUrl = Some (''data:image/png;base64,'' @ ''iVBORw0KGgo=''),
                           sr_message = MSG_qr_active\<rparr>)"
    by (subst c [THEN conjunct2, THEN conjunct1]) simp
  moreover
  have "next_sock (run 401 [Call_start ex_opts, Auth_done 1 (Fulfilled ()), Tick 500,
                       Call_start ex_opts, Auth_done 2 (Fulfilled ())] ex_pending) = 1"
    by (subst c [THEN conjunct2, THEN conjunct1]) (simp add: n)
  ultimately show ?thesis
    using h(1-4) c [THEN conjunct1] by blast
qed

subsection \<open>A stale attempt\<close>

text \<open>
  Claim C8. When the slot holds an attempt whose \<open>startedAt\<close> lies the TTL of three
  minutes or more in the past (so in particular more than the TTL), \<open>waitForWebLogin\<close>
  returns at once with \<open>connected: false\<close> and the QR-expired message; the world changes
  by exactly one \<open>close\<close>, on the socket of that attempt, and by the slot being empty.
  A call after that finds no attempt and closes nothing.
\<close>

theorem wait_reports_stale_attempt:
  assumes "activeLogin st = Some login"
    and "ACTIVE_LOGIN_TTL_MS \<le> now st - startedAt (heap st login)"
    and "st' = st\<lparr>closes := closes st @ [sock (heap st login)], activeLogin := None\<rparr>"
  shows "ACTIVE_LOGIN_TTL_MS = 3 * 60 * 1000 \<and>
         wait_call lo timeoutMs st =
           (WaitReturned \<lparr>wr_connected = False, wr_message = MSG_expired\<rparr>, st') \<and>
         wait_call lo timeoutMs' st' =
           (WaitReturned \<lparr>wr_connected = False, wr_message = MSG_no_login\<rparr>, st')"
  using assms
  by (simp add: wait_call_def isLoginFresh_def resetActiveLogin_def closeSocket_def
        ACTIVE_LOGIN_TTL_MS_def)

theorem wait_reports_stale_attempt_witness:
  "activeLogin (step 401 (Tick 180001) ex_pending) = Some 0 \<and>
   ACTIVE_LOGIN_TTL_MS
     \<le> now (step 401 (Tick 180001) ex_pending) - startedAt (heap (step 401 (Tick 180001) ex_pending) 0) \<and>
   wait_call 401 None (step 401 (Tick 180001) ex_pending) =
     (WaitReturned \<lparr>wr_connected = False, wr_message = MSG_expired\<rparr>,
      (step 401 (Tick 180001) ex_pending)\<lparr>closes := [0], activeLogin := None\<rparr>)"
proof -
  have h: "activeLogin (step 401 (Tick 180001) ex_pending) = Some 0"
    "ACTIVE_LOGIN_TTL_MS
       \<le> now (step 401 (Tick 180001) ex_pending) - startedAt (heap (step 401 (Tick 180001) ex_pending) 0)"
    "closes (step 401 (Tick 180001) ex_pending) = []"
    "sock (heap (step 401 (Tick 180001) ex_pending) 0) = 0"
    by (simp_all add: ex_pending_def ex_login_def ACTIVE_LOGIN_TTL_MS_def)
  show ?thesis
    using wait_reports_stale_attempt [OF h(1) h(2) refl, of 401 None] h
    by simp
qed

subsection \<open>The deadline of a wait\<close>

text \<open>
  Claim C9. With a fresh attempt in the slot whose completion signal is not settled,
  \<open>waitForWebLogin\<close> suspends at the race with the deadline
  \<open>max(timeoutMs ?? 120000, 1000)\<close> milliseconds after its entry, the world unchanged.
  When nothing but time passes until the timer of the race fires, the call returns
  \<open>connected: false\<close> with the still-waiting message, and the world differs from the one
  at entry only by the finished call and the clock: the slot, the attempt and the list
  of closed sockets are the same. In any world, the timer's turn of a suspended call
  changes nothing but that call's own state, and so does the loop head that finds the
  deadline passed.
\<close>

theorem wait_timeout_keeps_attempt:
  assumes "activeLogin st = Some login" and "isLoginFresh login st"
    and "\<not> settled st (waitPromise (heap st login))"
    and "timeout = max (case timeoutMs of None \<Rightarrow> 120000 | Some t \<Rightarrow> t) 1000"
    and "still = WaitReturned \<lparr>wr_connected = False, wr_message = MSG_still_waiting\<rparr>"
  shows "wait_call lo timeoutMs st =
           (WaitRace login (now st + timeout) (waitPromise (heap st login)), st) \<and>
         (\<forall>d. timeout \<le> int d \<longrightarrow>
            run lo [Call_wait timeoutMs, Tick d, Wait_timer (next_task st)] st =
              st\<lparr>tasks := (tasks st)(next_task st \<mapsto> still),
                  next_task := next_task st + 1, now := now st + int d\<rparr>) \<and>
         (\<forall>w tid l deadline p. tasks w tid = Some (WaitRace l deadline p) \<and> deadline \<le> now w \<longrightarrow>
            step lo (Wait_timer tid) w = w\<lparr>tasks := (tasks w)(tid \<mapsto> still)\<rparr>) \<and>
         (\<forall>w l deadline. deadline \<le> now w \<longrightarrow> wait_loop lo l deadline w = (still, w))"
  using assms
  by (auto simp: wait_call_def wait_loop_def Let_def run_def spawn_def with_task_def resume_def
        wait_timeout_def)

theorem wait_timeout_keeps_attempt_witness:
  "activeLogin ex_pending = Some 0 \<and> isLoginFresh 0 ex_pending \<and>
   \<not> settled ex_pending (waitPromise (heap ex_pending 0)) \<and>
   wait_call 401 (Some 1000) ex_pending = (WaitRace 0 2000 (Chained 0), ex_pending) \<and>
   run 401 [Call_wait (Some 1000), Tick 1000, Wait_timer 1] ex_pending =
     ex_pending\<lparr>tasks := (tasks ex_pending)(1 \<mapsto>
                   WaitReturned \<lparr>wr_connected = False, wr_message = MSG_still_waiting\<rparr>),
                 next_task := 2, now := 2000\<rparr>"
proof -
  have h: "activeLogin ex_pending = Some 0" "isLoginFresh 0 ex_pending"
    "\<not> settled ex_pending (waitPromise (heap ex_pending 0))"
    "next_task ex_pending = 1" "now ex_pending = 1000"
    "waitPromise (heap ex_pending 0) = Chained 0"
    by (simp_all add: ex_pending_def ex_login_def isLoginFresh_def settled_def
          ACTIVE_LOGIN_TTL_MS_def)
  show ?thesis
    using wait_timeout_keeps_attempt [OF h(1) h(2) h(3) refl refl, of 401 "Some 1000"] h
    by simp
qed

subsection \<open>The two terminal markers\<close>

lemma connected_stays_step:
  assumes i: "consistent st" and a: "a < next_login st" and c: "connected (heap st a)"
  shows "a < next_login (step lo ev st) \<and> connected (heap (step lo ev st) a)"
proof (induction rule: step_cases [where ev = ev and st = st and lo = lo])
  case (conn_settle p outcome)
  show ?case
    using a c inv_wait[OF i] inv_ids[OF i]
    by (auto simp: seg_defs split: splits)
next
  case (restart_sock tid login deadline r)
  then show ?case
    using a c inv_win[OF i restart_sock(2)]
    by (auto simp: seg_defs split: splits)
qed (use a c in \<open>auto simp: seg_defs split: splits\<close>)

lemma connected_stays_run:
  "consistent st \<Longrightarrow> a < next_login st \<Longrightarrow> connected (heap st a) \<Longrightarrow>
   a < next_login (run lo evs st) \<and> connected (heap (run lo evs st) a)"
proof (induction evs arbitrary: st)
  case Nil
  then show ?case by (simp add: run_Nil)
next
  case (Cons ev evs)
  from connected_stays_step[OF Cons.prems, of lo ev] consistent_step[OF Cons.prems(1), of lo ev]
  show ?case by (simp add: run_Cons Cons.IH)
qed

text \<open>
  Claim C3, as the code has it. In every world reachable from the freshly loaded module,
  by any sequence of events and whatever the collaborators do, no attempt has both
  \<open>connected\<close> and \<open>error\<close> set. Once \<open>connected\<close> is set on a created attempt it stays
  set and \<open>error\<close> stays unset, in every later world. The converse order is possible:
  \<open>error\<close> can be set first, be cleared by the one restart after a status 515, and
  \<open>connected\<close> be set afterwards, so that over the attempt's life both markers are set,
  one after the other; the counterexample below is Scenario D of the spec.
\<close>

theorem connected_and_error_exclusive:
  "\<not> (connected (heap (run lo evs (init auth self t0)) a) \<and>
      error (heap (run lo evs (init auth self t0)) a) \<noteq> None) \<and>
   (a < next_login (run lo evs (init auth self t0)) \<and>
    connected (heap (run lo evs (init auth self t0)) a) \<longrightarrow>
      connected (heap (run lo evs' (run lo evs (init auth self t0))) a) \<and>
      error (heap (run lo evs' (run lo evs (init auth self t0))) a) = None)"
proof -
  have i: "consistent (run lo evs (init auth self t0))"
    by (rule consistent_run[OF consistent_init])
  have i': "consistent (run lo evs' (run lo evs (init auth self t0)))"
    by (rule consistent_run[OF i])
  show ?thesis
    using inv_excl[OF i, of a] inv_excl[OF i', of a] connected_stays_run[OF i, of a lo evs']
    by auto
qed

theorem connected_and_error_exclusive_witness:
  "0 < next_login (run 401 (ex_restart_1 @ ex_restart_2) (init False (None, None) 1000)) \<and>
   connected (heap (run 401 (ex_restart_1 @ ex_restart_2) (init False (None, None) 1000)) 0) \<and>
   connected (heap (run 401 [Wait_wake 1]
      (run 401 (ex_restart_1 @ ex_restart_2) (init False (None, None) 1000))) 0) \<and>
   error (heap (run 401 [Wait_wake 1]
      (run 401 (ex_restart_1 @ ex_restart_2) (init False (None, None) 1000))) 0) = None"
proof -
  have h: "0 < next_login (run 401 (ex_restart_1 @ ex_restart_2) (init False (None, None) 1000)) \<and>
     connected (heap (run 401 (ex_restart_1 @ ex_restart_2) (init False (None, None) 1000)) 0)"
    unfolding ex_restart_1_def ex_restart_2_def run_append ex_pending_reached
    by (simp add: ex_pending_def ex_login_def ex_err_def model_defs)
  from connected_and_error_exclusive [of 401 "ex_restart_1 @ ex_restart_2" False "(None, None)" 1000 0
      "[Wait_wake 1]"] h
  show ?thesis by blast
qed

text \<open>Attempt 0 has \<open>error\<close> set after \<open>ex_restart_1\<close> and \<open>connected\<close> set after
  \<open>ex_restart_2\<close>: both markers become set during the life of one attempt.\<close>

theorem connected_and_error_exclusive_counterexample:
  "error (heap (run 401 ex_restart_1 (init False (None, None) 1000)) 0) = Some ''Connection Failure'' \<and>
   \<not> connected (heap (run 401 ex_restart_1 (init False (None, None) 1000)) 0) \<and>
   connected (heap (run 401 (ex_restart_1 @ ex_restart_2) (init False (None, None) 1000)) 0) \<and>
   error (heap (run 401 (ex_restart_1 @ ex_restart_2) (init False (None, None) 1000)) 0) = None \<and>
   id_login (heap (run 401 ex_restart_1 (init False (None, None) 1000)) 0) =
     id_login (heap (run 401 (ex_restart_1 @ ex_restart_2) (init False (None, None) 1000)) 0) \<and>
   activeLogin (run 401 (ex_restart_1 @ ex_restart_2) (init False (None, None) 1000)) = Some 0"
  unfolding ex_restart_1_def ex_restart_2_def run_append ex_pending_reached
  by (simp add: ex_pending_def ex_login_def ex_err_def model_defs)

subsection \<open>The logged-out status\<close>





subsection \<open>The restart after status 515\<close>











subsection \<open>Who closes a socket\<close>









subsection \<open>What a start returns\<close>
















subsection \<open>A code that comes too early\<close>








end
